theory Spec2Isabelle
  imports Complex_Main "HOL-Library.Sublist"
begin

section \<open>The map page of the places app (src/pages/MapPage.jsx)\<close>

text \<open>
  The page is one React component. Its hooks (\<open>useState\<close>, \<open>useRef\<close>, \<open>useQuery\<close>) are the
  fields of one state record; every handler is a function from state to state. JavaScript
  numbers (coordinates, zoom levels) are modelled as \<open>real\<close>, so \<open>NaN\<close> and the infinities
  are outside the model. Time is counted in milliseconds as \<open>nat\<close>.
\<close>

subsection \<open>Places\<close>

text \<open>
  A place as the page reads it: \<open>place.id\<close>, \<open>place.latitude\<close>, \<open>place.longitude\<close>,
  \<open>place.category\<close>, \<open>place.is_favorite\<close>; \<open>date_visited\<close> is the field of the sort key
  \<open>'-date_visited'\<close>. The field \<open>id\<close> is named \<open>place_id\<close> here.
\<close>

record place =
  place_id :: string
  latitude :: real
  longitude :: real
  category :: string
  is_favorite :: bool
  date_visited :: int

type_synonym latlng = "real \<times> real"

subsection \<open>Marker icons (lines 25-53 and 350)\<close>

text \<open>
  A JavaScript value as far as the colour lookup can produce one: a string, \<open>undefined\<close>,
  or a member of \<open>Object.prototype\<close> (a function or an object, named by its key) that a
  property read on an object literal finds through the prototype chain.
\<close>

datatype jsval = JString string | JUndefined | JInherited string

text \<open>The own properties of the object literal \<open>categoryColors\<close>, in the source's order.\<close>

definition categoryColors :: "(string \<times> string) list" where
  "categoryColors =
     [(''restaurant'', ''#f43f5e''),
      (''activity'', ''#10b981''),
      (''bar'', ''#a855f7''),
      (''cafe'', ''#d97706''),
      (''landmark'', ''#3b82f6'')]"

text \<open>The property names every ordinary object inherits from \<open>Object.prototype\<close>.\<close>

definition Object_prototype_keys :: "string list" where
  "Object_prototype_keys =
     [''constructor'', ''__proto__'', ''hasOwnProperty'', ''isPrototypeOf'',
      ''propertyIsEnumerable'', ''toLocaleString'', ''toString'', ''valueOf'',
      ''__defineGetter__'', ''__defineSetter__'', ''__lookupGetter__'', ''__lookupSetter__'']"

text \<open>
  The property read \<open>obj[key]\<close> on an object literal: an own property first, then the
  prototype chain, then \<open>undefined\<close>.
\<close>

definition js_get :: "(string \<times> string) list \<Rightarrow> string \<Rightarrow> jsval" where
  "js_get obj key =
     (case map_of obj key of
        Some v \<Rightarrow> JString v
      | None \<Rightarrow> if key \<in> set Object_prototype_keys then JInherited key else JUndefined)"

text \<open>JavaScript truthiness and the operator \<open>||\<close>.\<close>

fun truthy :: "jsval \<Rightarrow> bool" where
  "truthy (JString s) = (s \<noteq> [])"
| "truthy JUndefined = False"
| "truthy (JInherited k) = True"

definition js_or :: "jsval \<Rightarrow> jsval \<Rightarrow> jsval" where
  "js_or a b = (if truthy a then a else b)"

text \<open>
  The options object \<open>createIcon\<close> hands to \<open>L.divIcon\<close>. The \<open>html\<close> template has three
  holes: the \<open>width\<close>, the \<open>height\<close> and the \<open>fill\<close> of the svg path; they are the fields
  \<open>svg_width\<close>, \<open>svg_height\<close> and \<open>svg_fill\<close>.
\<close>

record icon =
  className :: string
  svg_width :: real
  svg_height :: real
  svg_fill :: jsval
  iconSize :: "real \<times> real"
  iconAnchor :: "real \<times> real"
  popupAnchor :: "real \<times> real"

text \<open>\<open>createIcon(color, zoomLevel = 12)\<close>: the default applies to a missing argument.\<close>

definition createIcon :: "jsval \<Rightarrow> real option \<Rightarrow> icon" where
  "createIcon color zoomLevel_arg =
     (let zoomLevel = (case zoomLevel_arg of None \<Rightarrow> 12 | Some z \<Rightarrow> z);
          isZoomedOut = (zoomLevel < 13);
          size = (if isZoomedOut then 16 else 32);
          height = (if isZoomedOut then 21 else 42)
      in \<lparr>className = ''custom-marker'',
          svg_width = size,
          svg_height = height,
          svg_fill = color,
          iconSize = (size, height),
          iconAnchor = (size / 2, height),
          popupAnchor = (0, - height)\<rparr>)"

text \<open>
  The \<open>icon\<close> prop of a marker (line 350):
  \<open>createIcon(categoryColors[place.category] || '#6b7280', currentZoom)\<close>.
\<close>

definition markerIcon :: "place \<Rightarrow> real \<Rightarrow> icon" where
  "markerIcon p currentZoom_now =
     createIcon (js_or (js_get categoryColors (category p)) (JString ''#6b7280''))
       (Some currentZoom_now)"

subsection \<open>The remote store\<close>

text \<open>
  The body of \<open>{ id: place.id, data: { is_favorite: !place.is_favorite } }\<close>, the one
  mutation the page issues.
\<close>

record update_request =
  req_id :: string
  req_is_favorite :: bool

text \<open>
  Modelled from the spec: \<open>base44.entities.Place.update\<close> is not under src/. Sections 4.1
  and 6 of the spec say that \<open>update(id, partialFields)\<close> applies the partial fields to the
  remote place. Here the update fails (\<open>None\<close>) when the store has no place with that id.
\<close>

definition Place_update :: "string \<Rightarrow> bool \<Rightarrow> place list \<Rightarrow> place list option" where
  "Place_update i fav store =
     (if i \<in> place_id ` set store
      then Some (map (\<lambda>q. if place_id q = i then q\<lparr>is_favorite := fav\<rparr> else q) store)
      else None)"

text \<open>
  Modelled from the spec: \<open>base44.entities.Place.list\<close> is not under src/. Sections 4.1 and
  6 of the spec say that \<open>list('-date_visited')\<close> returns the places sorted by
  \<open>date_visited\<close>, descending.
\<close>

definition Place_list :: "place list \<Rightarrow> place list" where
  "Place_list store = rev (sort_key date_visited store)"

subsection \<open>The map widget\<close>

text \<open>
  Leaflet's \<open>L.latLngBounds(latlngs)\<close>: the box starts at the first point and is extended
  by each further one; with no point there is no box.
\<close>

record bounds =
  south :: real
  west :: real
  north :: real
  east :: real

definition extend_bounds :: "latlng \<Rightarrow> bounds \<Rightarrow> bounds" where
  "extend_bounds c b =
     \<lparr>south = min (south b) (fst c), west = min (west b) (snd c),
      north = max (north b) (fst c), east = max (east b) (snd c)\<rparr>"

fun latLngBounds :: "latlng list \<Rightarrow> bounds option" where
  "latLngBounds [] = None"
| "latLngBounds (c # cs) =
     Some (fold extend_bounds cs \<lparr>south = fst c, west = snd c, north = fst c, east = snd c\<rparr>)"

definition covers :: "bounds \<Rightarrow> latlng \<Rightarrow> bool" where
  "covers b c =
     (south b \<le> fst c \<and> fst c \<le> north b \<and> west b \<le> snd c \<and> snd c \<le> east b)"

text \<open>A call the page makes on the map instance: \<open>fitBounds(bounds, { padding })\<close>.\<close>

datatype widget_call = FitBounds "bounds option" "real \<times> real"

subsection \<open>The state of the page\<close>

text \<open>The two callbacks the page hands to \<open>setTimeout\<close>.\<close>

datatype deferred =
    SelectAdded place
  | SelectSearched place

text \<open>
  The hooks of \<open>MapPage\<close> and what they stand on: \<open>places\<close> is the \<open>data\<close> of the query
  \<open>['places']\<close>, \<open>places_invalidated\<close> says that \<open>invalidateQueries(['places'])\<close> has marked
  it for a refetch, \<open>mapRef_current\<close> says that \<open>mapRef.current\<close> holds a map (it is \<open>null\<close>
  otherwise), \<open>widget_calls\<close> logs the calls made on that map, \<open>timers\<close> holds the pending
  \<open>setTimeout\<close> callbacks with the time each is due, in the order they were scheduled,
  \<open>pending_updates\<close> the mutations in flight, and \<open>remote\<close> the store behind the API.
\<close>

record view_state =
  selectedPlace :: "place option"
  showAddForm :: bool
  filterCategory :: string
  showFavoritesOnly :: bool
  mapCenter :: "latlng option"
  mapZoom :: "real option"
  highlightedPlace :: "place option"
  currentZoom :: real
  mapRef_current :: bool
  places :: "place list"
  places_invalidated :: bool
  widget_calls :: "widget_call list"
  timers :: "(nat \<times> deferred) list"
  now :: nat
  pending_updates :: "update_request list"
  remote :: "place list"

text \<open>The first render: the \<open>useState\<close> defaults, \<open>useRef(null)\<close>, \<open>data: places = []\<close>.\<close>

definition initial_state :: "place list \<Rightarrow> view_state" where
  "initial_state store =
     \<lparr>selectedPlace = None, showAddForm = False, filterCategory = ''all'',
      showFavoritesOnly = False, mapCenter = None, mapZoom = None,
      highlightedPlace = None, currentZoom = 12, mapRef_current = False,
      places = [], places_invalidated = False, widget_calls = [], timers = [],
      now = 0, pending_updates = [], remote = store\<rparr>"

subsection \<open>Derived values (lines 167-175)\<close>

definition filteredPlaces :: "view_state \<Rightarrow> place list" where
  "filteredPlaces s =
     filter (\<lambda>place.
        let categoryMatch = (filterCategory s = ''all'' \<or> category place = filterCategory s);
            favoriteMatch = (\<not> showFavoritesOnly s \<or> is_favorite place)
        in categoryMatch \<and> favoriteMatch) (places s)"

definition defaultCenter :: "view_state \<Rightarrow> latlng" where
  "defaultCenter s =
     (if length (filteredPlaces s) > 0
      then (latitude (filteredPlaces s ! 0), longitude (filteredPlaces s ! 0))
      else (40.7128, -74.0060))"

text \<open>The props \<open>center\<close> and \<open>zoom\<close> of \<open>MapContainer\<close> (lines 312-315).\<close>

definition mapContainer_center :: "view_state \<Rightarrow> latlng" where
  "mapContainer_center s = defaultCenter s"

definition mapContainer_zoom :: "view_state \<Rightarrow> real" where
  "mapContainer_zoom s = 12"

subsection \<open>Handlers (lines 135-184 and 352)\<close>

text \<open>
  \<open>handleToggleFavorite\<close> awaits \<open>mutateAsync\<close>: the request is issued here and settles in
  \<open>mutation_settled\<close>.
\<close>

definition handleToggleFavorite :: "place \<Rightarrow> view_state \<Rightarrow> view_state" where
  "handleToggleFavorite place s =
     s\<lparr>pending_updates := pending_updates s @
          [\<lparr>req_id = place_id place, req_is_favorite = (\<not> is_favorite place)\<rparr>]\<rparr>"

text \<open>
  The oldest mutation in flight settles: \<open>mutationFn\<close> is the remote update, and
  \<open>onSuccess\<close> invalidates the query. A failed update only leaves the queue.
\<close>

definition mutation_settled :: "view_state \<Rightarrow> view_state" where
  "mutation_settled s =
     (case pending_updates s of
        [] \<Rightarrow> s
      | r # rs \<Rightarrow>
          (case Place_update (req_id r) (req_is_favorite r) (remote s) of
             None \<Rightarrow> s\<lparr>pending_updates := rs\<rparr>
           | Some store \<Rightarrow>
               s\<lparr>pending_updates := rs, remote := store, places_invalidated := True\<rparr>))"

text \<open>Every mutation in flight settles, the oldest first.\<close>

definition mutations_settled :: "view_state \<Rightarrow> view_state" where
  "mutations_settled s = (mutation_settled ^^ length (pending_updates s)) s"

text \<open>The refetch of the query \<open>['places']\<close> delivers: \<open>queryFn\<close> is the remote list.\<close>

definition refetch_settled :: "view_state \<Rightarrow> view_state" where
  "refetch_settled s = s\<lparr>places := Place_list (remote s), places_invalidated := False\<rparr>"

definition setTimeout :: "deferred \<Rightarrow> nat \<Rightarrow> view_state \<Rightarrow> view_state" where
  "setTimeout callback delay s = s\<lparr>timers := timers s @ [(now s + delay, callback)]\<rparr>"

definition handlePlaceAdded :: "place \<Rightarrow> view_state \<Rightarrow> view_state" where
  "handlePlaceAdded newPlace s =
     setTimeout (SelectAdded newPlace) 800
       (s\<lparr>places_invalidated := True,
          showAddForm := False,
          mapCenter := Some (latitude newPlace, longitude newPlace),
          mapZoom := Some 15\<rparr>)"

definition handleSearchSelect :: "place \<Rightarrow> view_state \<Rightarrow> view_state" where
  "handleSearchSelect place s =
     setTimeout (SelectSearched place) 1500
       (s\<lparr>mapCenter := Some (latitude place, longitude place),
          mapZoom := Some 16,
          highlightedPlace := Some place\<rparr>)"

text \<open>The click handler of a marker (line 352).\<close>

definition marker_click :: "place \<Rightarrow> view_state \<Rightarrow> view_state" where
  "marker_click place s = s\<lparr>selectedPlace := Some place\<rparr>"

definition handleRecenter :: "view_state \<Rightarrow> view_state" where
  "handleRecenter s =
     (if length (filteredPlaces s) > 0
      then
        (let bounds = latLngBounds (map (\<lambda>p. (latitude p, longitude p)) (filteredPlaces s))
         in if mapRef_current s
            then s\<lparr>widget_calls := widget_calls s @ [FitBounds bounds (50, 50)]\<rparr>
            else s)
      else s)"

subsection \<open>Timers\<close>

text \<open>What a callback does when it fires.\<close>

fun run_deferred :: "deferred \<Rightarrow> view_state \<Rightarrow> view_state" where
  "run_deferred (SelectAdded newPlace) s = s\<lparr>selectedPlace := Some newPlace\<rparr>"
| "run_deferred (SelectSearched place) s =
     s\<lparr>selectedPlace := Some place, highlightedPlace := None\<rparr>"

text \<open>
  \<open>dt\<close> milliseconds pass with no other event: every timer due by then fires, the earlier
  due time first, and among equal due times the one scheduled first (\<open>sort_key\<close> is
  stable); the others stay pending.
\<close>

definition elapse :: "nat \<Rightarrow> view_state \<Rightarrow> view_state" where
  "elapse dt s =
     (let t = now s + dt;
          due = sort_key fst (filter (\<lambda>x. fst x \<le> t) (timers s));
          rest = filter (\<lambda>x. \<not> fst x \<le> t) (timers s)
      in fold (\<lambda>x. run_deferred (snd x)) due (s\<lparr>timers := rest, now := t\<rparr>))"

text \<open>The two flows that schedule a deferred selection, with their delays.\<close>

datatype selection_event = SearchSelect place | PlaceAdded place

fun trigger :: "selection_event \<Rightarrow> view_state \<Rightarrow> view_state" where
  "trigger (SearchSelect p) s = handleSearchSelect p s"
| "trigger (PlaceAdded p) s = handlePlaceAdded p s"

fun delay_of :: "selection_event \<Rightarrow> nat" where
  "delay_of (SearchSelect p) = 1500"
| "delay_of (PlaceAdded p) = 800"

fun callback_of :: "selection_event \<Rightarrow> deferred" where
  "callback_of (SearchSelect p) = SelectSearched p"
| "callback_of (PlaceAdded p) = SelectAdded p"

fun target_of :: "selection_event \<Rightarrow> place" where
  "target_of (SearchSelect p) = p"
| "target_of (PlaceAdded p) = p"

subsection \<open>Example data\<close>

definition place1 :: place where
  "place1 = \<lparr>place_id = ''1'', latitude = 40.7, longitude = -74.0, category = ''bar'',
             is_favorite = False, date_visited = 1\<rparr>"

definition place2 :: place where
  "place2 = \<lparr>place_id = ''2'', latitude = 40.8, longitude = -73.9, category = ''cafe'',
             is_favorite = True, date_visited = 2\<rparr>"

definition loaded_state :: view_state where
  "loaded_state = refetch_settled (initial_state [place1, place2])"

definition scenario_state :: view_state where
  "scenario_state = loaded_state\<lparr>places := [place1, place2], showFavoritesOnly := True\<rparr>"

definition mounted_state :: view_state where
  "mounted_state = loaded_state\<lparr>mapRef_current := True\<rparr>"

subsection \<open>The local view state\<close>

text \<open>
  Two states show the same view: the filter, the viewport target, the highlight, the
  selection, the add form and the tracked zoom level agree.
\<close>

definition same_view :: "view_state \<Rightarrow> view_state \<Rightarrow> bool" where
  "same_view s s' =
     (filterCategory s' = filterCategory s \<and> showFavoritesOnly s' = showFavoritesOnly s \<and>
      mapCenter s' = mapCenter s \<and> mapZoom s' = mapZoom s \<and>
      highlightedPlace s' = highlightedPlace s \<and> selectedPlace s' = selectedPlace s \<and>
      showAddForm s' = showAddForm s \<and> currentZoom s' = currentZoom s)"

section \<open>Properties\<close>

subsection \<open>The visible places\<close>

lemma count_list_filter:
  "count_list (filter P xs) x = (if P x then count_list xs x else 0)"
  by (induction xs) auto

text \<open>
  Claim C1. For every cached list and every filter state, a place is in the visible list
  exactly when it is in the cached list, its category passes the category filter
  (the filter is \<open>'all'\<close> or equals the place's category) and it passes the favourite
  filter (favourites-only is off or the place is a favourite); it occurs there as often
  as in the cached list.
\<close>

theorem filteredPlaces_exact:
  "(p \<in> set (filteredPlaces s) \<longleftrightarrow>
      p \<in> set (places s) \<and>
      (filterCategory s = ''all'' \<or> category p = filterCategory s) \<and>
      (\<not> showFavoritesOnly s \<or> is_favorite p)) \<and>
   count_list (filteredPlaces s) p =
     (if (filterCategory s = ''all'' \<or> category p = filterCategory s) \<and>
         (\<not> showFavoritesOnly s \<or> is_favorite p)
      then count_list (places s) p else 0)"
  by (simp add: filteredPlaces_def count_list_filter)

lemma scenario_fields:
  "places scenario_state = [place1, place2]"
  "showFavoritesOnly scenario_state = True"
  "filterCategory scenario_state = ''all''"
  by (simp_all add: scenario_state_def loaded_state_def refetch_settled_def initial_state_def)

lemma place_fields:
  "is_favorite place1 = False" "is_favorite place2 = True"
  "category place1 = ''bar''" "category place2 = ''cafe''"
  "place_id place1 = ''1''" "place_id place2 = ''2''"
  "latitude place1 = 40.7" "longitude place1 = -74.0"
  "latitude place2 = 40.8" "longitude place2 = -73.9"
  "place1 \<noteq> place2" "place2 \<noteq> place1"
  by (simp_all add: place1_def place2_def)

text \<open>
  The scenario of the spec: a bar that is no favourite and a cafe that is one, filter
  \<open>'all'\<close> with favourites only; the cafe alone is visible.
\<close>

theorem filteredPlaces_exact_witness:
  "place2 \<in> set (filteredPlaces scenario_state) \<and>
   place1 \<notin> set (filteredPlaces scenario_state) \<and>
   count_list (filteredPlaces scenario_state) place2 = 1"
  using filteredPlaces_exact [of place2 scenario_state]
    filteredPlaces_exact [of place1 scenario_state]
  by (simp add: scenario_fields place_fields)

text \<open>
  Claim C6. The visible list is an order-preserving subsequence of the cached list, no
  longer than it, and it depends on the cached list and the two filter fields only: two
  states that agree on these three have the same visible list, in the same order.
\<close>

theorem filteredPlaces_pure_subseq:
  "subseq (filteredPlaces s) (places s) \<and>
   length (filteredPlaces s) \<le> length (places s) \<and>
   (places s' = places s \<and> filterCategory s' = filterCategory s \<and>
    showFavoritesOnly s' = showFavoritesOnly s \<longrightarrow> filteredPlaces s' = filteredPlaces s)"
  by (simp add: filteredPlaces_def)

text \<open>
  Selecting a place changes neither the cached list nor the filter, so the visible list
  of the scenario stays what it was.
\<close>

theorem filteredPlaces_pure_subseq_witness:
  "subseq (filteredPlaces scenario_state) [place1, place2] \<and>
   length (filteredPlaces scenario_state) \<le> 2 \<and>
   filteredPlaces (marker_click place1 scenario_state) = filteredPlaces scenario_state"
  using filteredPlaces_pure_subseq [of scenario_state "marker_click place1 scenario_state"]
  by (simp add: scenario_fields marker_click_def)

text \<open>
  Claim C9. The \<open>center\<close> prop of the map is the fixed coordinate
  \<open>[40.7128, -74.0060]\<close> when no place is visible and the coordinates of the first
  visible place otherwise; the \<open>zoom\<close> prop is 12.
\<close>

theorem initial_center_and_zoom:
  "(filteredPlaces s = [] \<longrightarrow> mapContainer_center s = (40.7128, -74.0060)) \<and>
   (\<forall>p ps. filteredPlaces s = p # ps \<longrightarrow> mapContainer_center s = (latitude p, longitude p)) \<and>
   mapContainer_zoom s = 12"
  by (simp add: mapContainer_center_def mapContainer_zoom_def defaultCenter_def)

lemma filteredPlaces_loaded: "filteredPlaces loaded_state = [place2, place1]"
  by (simp add: filteredPlaces_def loaded_state_def refetch_settled_def initial_state_def
      Place_list_def place1_def place2_def)

lemma filteredPlaces_initial: "filteredPlaces (initial_state store) = []"
  by (simp add: filteredPlaces_def initial_state_def)

text \<open>
  Before the list has loaded the centre is the fixed coordinate; once it has, the centre
  is the place visited last.
\<close>

theorem initial_center_and_zoom_witness:
  "mapContainer_center (initial_state [place1, place2]) = (40.7128, -74.0060) \<and>
   mapContainer_center loaded_state = (40.8, -73.9) \<and>
   mapContainer_zoom loaded_state = 12"
  using initial_center_and_zoom [of "initial_state [place1, place2]"]
    initial_center_and_zoom [of loaded_state]
  by (simp add: filteredPlaces_loaded filteredPlaces_initial place_fields)

subsection \<open>Marker icons\<close>

lemma createIcon_tier:
  "z < 13 \<Longrightarrow> iconSize (createIcon c (Some z)) = (16, 21)"
  "13 \<le> z \<Longrightarrow> iconSize (createIcon c (Some z)) = (32, 42)"
  by (simp_all add: createIcon_def)

lemma markerIcon_tier:
  "iconSize (markerIcon p z) = (if z < 13 then (16, 21) else (32, 42))"
  "svg_width (markerIcon p z) = (if z < 13 then 16 else 32)"
  "svg_height (markerIcon p z) = (if z < 13 then 21 else 42)"
  "iconAnchor (markerIcon p z) = (if z < 13 then (8, 21) else (16, 42))"
  "popupAnchor (markerIcon p z) = (if z < 13 then (0, -21) else (0, -42))"
  by (simp_all add: markerIcon_def createIcon_def)

lemma markerIcon_fill:
  "svg_fill (markerIcon p z) = js_or (js_get categoryColors (category p)) (JString ''#6b7280'')"
  by (simp add: markerIcon_def createIcon_def Let_def)

lemma markerIcon_known_colors:
  "category p = ''restaurant'' \<Longrightarrow> svg_fill (markerIcon p z) = JString ''#f43f5e''"
  "category p = ''activity'' \<Longrightarrow> svg_fill (markerIcon p z) = JString ''#10b981''"
  "category p = ''bar'' \<Longrightarrow> svg_fill (markerIcon p z) = JString ''#a855f7''"
  "category p = ''cafe'' \<Longrightarrow> svg_fill (markerIcon p z) = JString ''#d97706''"
  "category p = ''landmark'' \<Longrightarrow> svg_fill (markerIcon p z) = JString ''#3b82f6''"
  by (simp_all add: markerIcon_fill js_get_def js_or_def categoryColors_def)

lemma markerIcon_default_color:
  "category p \<notin> fst ` set categoryColors \<Longrightarrow> category p \<notin> set Object_prototype_keys \<Longrightarrow>
   svg_fill (markerIcon p z) = JString ''#6b7280''"
  by (simp add: markerIcon_fill js_get_def js_or_def map_of_eq_None_iff [THEN iffD2])

text \<open>A category that is a key of \<open>Object.prototype\<close> never gets the default colour.\<close>

lemma markerIcon_inherited_color:
  assumes "category p \<in> set Object_prototype_keys"
  shows "svg_fill (markerIcon p z) = JInherited (category p)"
proof -
  have "map_of categoryColors (category p) = None"
    using assms by (auto simp: Object_prototype_keys_def categoryColors_def)
  then show ?thesis
    using assms by (simp add: markerIcon_fill js_get_def js_or_def)
qed

text \<open>
  Claim C4, at the category \<open>constructor\<close>. The category is none of the five mapped
  ones, yet the property read finds \<open>Object.prototype.constructor\<close>, which is truthy,
  so \<open>||\<close> does not fall back and the fill of the icon is not the default colour
  \<open>#6b7280\<close>. The lemmas above show what does hold: the size tier for every category
  and zoom level, the colour of each mapped category, and the default colour for every
  other category that is not a key of \<open>Object.prototype\<close>.
\<close>

theorem markerIcon_inherited_key:
  "svg_fill (markerIcon (place1\<lparr>category := ''constructor''\<rparr>) 12) = JInherited ''constructor'' \<and>
   svg_fill (markerIcon (place1\<lparr>category := ''constructor''\<rparr>) 12) \<noteq> JString ''#6b7280'' \<and>
   ''constructor'' \<notin> set [''restaurant'', ''activity'', ''bar'', ''cafe'', ''landmark'']"
  by (simp add: markerIcon_fill js_get_def js_or_def categoryColors_def Object_prototype_keys_def)

subsection \<open>Timers and deferred selections\<close>

lemma insort_key_before_last:
  "f x \<le> f y \<Longrightarrow> insort_key f x (ys @ [y]) = insort_key f x ys @ [y]"
  by (induction ys) auto

lemma insort_key_greatest:
  "\<forall>z\<in>set zs. f z < f y \<Longrightarrow> insort_key f y zs = zs @ [y]"
  by (induction zs) auto

lemma sort_key_latest_last:
  "\<forall>a\<in>set as. f a \<le> f y \<Longrightarrow> \<forall>b\<in>set bs. f b < f y \<Longrightarrow>
   sort_key f (as @ y # bs) = sort_key f (as @ bs) @ [y]"
proof (induction as)
  case Nil
  then show ?case by (simp add: insort_key_greatest)
next
  case (Cons a as)
  then show ?case by (simp add: insort_key_before_last)
qed

lemma run_deferred_frame:
  "timers (run_deferred k s) = timers s"
  "now (run_deferred k s) = now s"
  "places (run_deferred k s) = places s"
  by (cases k; simp)+

lemma fold_run_deferred_frame:
  "timers (fold (\<lambda>x. run_deferred (snd x)) xs s) = timers s"
  "now (fold (\<lambda>x. run_deferred (snd x)) xs s) = now s"
  by (induction xs arbitrary: s) (simp_all add: run_deferred_frame)

lemma timers_elapse:
  "timers (elapse dt s) = filter (\<lambda>x. \<not> fst x \<le> now s + dt) (timers s)"
  by (simp add: elapse_def Let_def fold_run_deferred_frame)

lemma now_elapse: "now (elapse dt s) = now s + dt"
  by (simp add: elapse_def Let_def fold_run_deferred_frame)

lemma selectedPlace_run_deferred:
  "selectedPlace (run_deferred (callback_of ev) s) = Some (target_of ev)"
  by (cases ev) simp_all

text \<open>
  The timer that fires last: it is due by the end of the interval, no timer scheduled
  before it is due later, and every timer scheduled after it is due strictly earlier.
\<close>

lemma elapse_last_fired:
  assumes "timers s = as @ (d, k) # bs" and "d \<le> now s + dt"
    and "\<forall>a\<in>set as. fst a \<le> now s + dt \<longrightarrow> fst a \<le> d"
    and "\<forall>b\<in>set bs. fst b \<le> now s + dt \<longrightarrow> fst b < d"
  shows "elapse dt s = run_deferred k (elapse dt (s\<lparr>timers := as @ bs\<rparr>))"
proof -
  let ?P = "\<lambda>x::nat \<times> deferred. fst x \<le> now s + dt"
  have "sort_key fst (filter ?P as @ (d, k) # filter ?P bs)
        = sort_key fst (filter ?P as @ filter ?P bs) @ [(d, k)]"
    using assms(3,4) by (intro sort_key_latest_last) auto
  then show ?thesis
    using assms(1,2) by (simp add: elapse_def Let_def)
qed

lemma timers_trigger:
  "timers (trigger ev s) = timers s @ [(now s + delay_of ev, callback_of ev)]"
  by (cases ev) (simp_all add: handleSearchSelect_def handlePlaceAdded_def setTimeout_def)

lemma now_trigger: "now (trigger ev s) = now s"
  by (cases ev) (simp_all add: handleSearchSelect_def handlePlaceAdded_def setTimeout_def)

text \<open>A selection scheduled now is the last to fire when exactly its delay passes.\<close>

lemma elapse_delay_after_trigger:
  "\<exists>s'. elapse (delay_of ev) (trigger ev s) = run_deferred (callback_of ev) s'"
proof -
  have "elapse (delay_of ev) (trigger ev s)
        = run_deferred (callback_of ev)
            (elapse (delay_of ev) ((trigger ev s)\<lparr>timers := timers s @ []\<rparr>))"
    by (rule elapse_last_fired [where d = "now s + delay_of ev"])
      (simp_all add: timers_trigger now_trigger)
  then show ?thesis by blast
qed

lemma trigger_pending:
  assumes "e < delay_of ev1"
  shows "timers (trigger ev2 (elapse e (trigger ev1 s)))
         = filter (\<lambda>x. \<not> fst x \<le> now s + e) (timers s)
           @ [(now s + delay_of ev1, callback_of ev1), (now s + e + delay_of ev2, callback_of ev2)]"
    and "now (trigger ev2 (elapse e (trigger ev1 s))) = now s + e"
  using assms by (simp_all add: timers_trigger now_trigger timers_elapse now_elapse)

lemma two_selections:
  fixes s :: view_state
  assumes e: "e < delay_of ev1"
    and s2: "s2 = trigger ev2 (elapse e (trigger ev1 s))"
    and d1: "d1 = now s + delay_of ev1"
    and d2: "d2 = now s + e + delay_of ev2"
  shows "selectedPlace (elapse (max d1 d2 - now s2) s2)
           = Some (target_of (if d1 \<le> d2 then ev2 else ev1))"
    and "timers (elapse (max d1 d2 - now s2) s2) = filter (\<lambda>x. max d1 d2 < fst x) (timers s)"
    and "d1 < d2 \<Longrightarrow> selectedPlace (elapse (d1 - now s2) s2) = Some (target_of ev1)"
    and "d2 < d1 \<Longrightarrow> selectedPlace (elapse (d2 - now s2) s2) = Some (target_of ev2)"
proof -
  let ?rest = "filter (\<lambda>x. \<not> fst x \<le> now s + e) (timers s)"
  let ?t1 = "(d1, callback_of ev1)" and ?t2 = "(d2, callback_of ev2)"
  have tm: "timers s2 = ?rest @ [?t1, ?t2]" and nw: "now s2 = now s + e"
    using trigger_pending [OF e, of ev2 s] by (simp_all add: s2 d1 d2)
  have late: "now s2 \<le> d1" "now s2 \<le> d2"
    using e by (simp_all add: nw d1 d2)
  have first_wins: "selectedPlace (elapse (t - now s2) s2) = Some (target_of ev1)"
    if "d1 \<le> t" and "d2 \<le> t \<longrightarrow> d2 < d1" and "\<forall>a\<in>set ?rest. fst a \<le> t \<longrightarrow> fst a \<le> d1" for t
  proof -
    have "elapse (t - now s2) s2
          = run_deferred (callback_of ev1) (elapse (t - now s2) (s2\<lparr>timers := ?rest @ [?t2]\<rparr>))"
      by (rule elapse_last_fired [where d = d1]) (use that late tm in auto)
    then show ?thesis by (simp add: selectedPlace_run_deferred)
  qed
  have second_wins: "selectedPlace (elapse (t - now s2) s2) = Some (target_of ev2)"
    if "d2 \<le> t" and "d1 \<le> t \<longrightarrow> d1 \<le> d2" and "\<forall>a\<in>set ?rest. fst a \<le> t \<longrightarrow> fst a \<le> d2" for t
  proof -
    have "elapse (t - now s2) s2
          = run_deferred (callback_of ev2) (elapse (t - now s2) (s2\<lparr>timers := (?rest @ [?t1]) @ []\<rparr>))"
      by (rule elapse_last_fired [where d = d2]) (use that late tm in auto)
    then show ?thesis by (simp add: selectedPlace_run_deferred)
  qed
  show "selectedPlace (elapse (max d1 d2 - now s2) s2)
          = Some (target_of (if d1 \<le> d2 then ev2 else ev1))"
  proof (cases "d1 \<le> d2")
    case True
    then show ?thesis using second_wins [of "max d1 d2"] by (simp add: max_def)
  next
    case False
    then show ?thesis using first_wins [of "max d1 d2"] by (simp add: max_def)
  qed
  show "d1 < d2 \<Longrightarrow> selectedPlace (elapse (d1 - now s2) s2) = Some (target_of ev1)"
    using first_wins [of d1] by simp
  show "d2 < d1 \<Longrightarrow> selectedPlace (elapse (d2 - now s2) s2) = Some (target_of ev2)"
    using second_wins [of d2] by simp
  have "now s2 + (max d1 d2 - now s2) = max d1 d2"
    using late by simp
  then have "timers (elapse (max d1 d2 - now s2) s2)
             = filter (\<lambda>x. \<not> fst x \<le> max d1 d2) (?rest @ [?t1, ?t2])"
    by (simp only: timers_elapse tm)
  also have "\<dots> = filter (\<lambda>x. max d1 d2 < fst x) (timers s)"
    using late by (auto simp: nw intro!: filter_cong)
  finally show "timers (elapse (max d1 d2 - now s2) s2)
                = filter (\<lambda>x. max d1 d2 < fst x) (timers s)" .
qed

lemma loaded_fields:
  "now loaded_state = 0" "timers loaded_state = []" "selectedPlace loaded_state = None"
  "places loaded_state = [place2, place1]" "remote loaded_state = [place1, place2]"
  "pending_updates loaded_state = []" "mapRef_current loaded_state = False"
  "filterCategory loaded_state = ''all''" "showFavoritesOnly loaded_state = False"
  "widget_calls loaded_state = []"
  by (simp_all add: loaded_state_def refetch_settled_def initial_state_def Place_list_def
      place1_def place2_def)

text \<open>
  Claim C2, as the code has it. A search-select of \<open>p\<close> sets the highlight to \<open>p\<close>
  and the viewport target to the coordinates of \<open>p\<close> at zoom 16, leaves the selection
  as it was, and schedules one callback 1500 ms ahead; when 1500 ms have passed with no
  other event, the highlight is \<open>null\<close> and the selection is \<open>p\<close>, whatever other
  timers were pending.
\<close>

theorem handleSearchSelect_effects:
  "highlightedPlace (handleSearchSelect p s) = Some p \<and>
   selectedPlace (handleSearchSelect p s) = selectedPlace s \<and>
   mapCenter (handleSearchSelect p s) = Some (latitude p, longitude p) \<and>
   mapZoom (handleSearchSelect p s) = Some 16 \<and>
   timers (handleSearchSelect p s) = timers s @ [(now s + 1500, SelectSearched p)] \<and>
   highlightedPlace (elapse 1500 (handleSearchSelect p s)) = None \<and>
   selectedPlace (elapse 1500 (handleSearchSelect p s)) = Some p"
proof -
  obtain s' where "elapse 1500 (handleSearchSelect p s) = run_deferred (SelectSearched p) s'"
    using elapse_delay_after_trigger [of "SearchSelect p" s] by auto
  then show ?thesis
    by (simp add: handleSearchSelect_def setTimeout_def)
qed

text \<open>
  Claim C2 as stated fails where a place is already selected: after a click on the marker
  of one place, a search-select of another leaves the first one selected, not \<open>null\<close>.
\<close>

theorem handleSearchSelect_keeps_selection:
  "\<not> (highlightedPlace (handleSearchSelect place2 (marker_click place1 loaded_state)) = Some place2 \<and>
      selectedPlace (handleSearchSelect place2 (marker_click place1 loaded_state)) = None)"
  by (simp add: handleSearchSelect_def setTimeout_def marker_click_def)

text \<open>
  Claim C3. The success handler of the add-place form sets the viewport target to the new
  place's coordinates at zoom 15, invalidates the query of the places, leaves the
  selection as it was and schedules one callback 800 ms ahead; when 800 ms have passed
  with no other event, the selection is the new place, whatever other timers were
  pending.
\<close>

theorem handlePlaceAdded_effects:
  "mapCenter (handlePlaceAdded p s) = Some (latitude p, longitude p) \<and>
   mapZoom (handlePlaceAdded p s) = Some 15 \<and>
   places_invalidated (handlePlaceAdded p s) \<and>
   selectedPlace (handlePlaceAdded p s) = selectedPlace s \<and>
   timers (handlePlaceAdded p s) = timers s @ [(now s + 800, SelectAdded p)] \<and>
   selectedPlace (elapse 800 (handlePlaceAdded p s)) = Some p"
proof -
  obtain s' where "elapse 800 (handlePlaceAdded p s) = run_deferred (SelectAdded p) s'"
    using elapse_delay_after_trigger [of "PlaceAdded p" s] by auto
  then show ?thesis
    by (simp add: handlePlaceAdded_def setTimeout_def)
qed

lemma insort_key_into_left:
  "\<forall>b\<in>set bs. f x \<le> f b \<Longrightarrow> insort_key f x (as @ bs) = insort_key f x as @ bs"
proof (induction as)
  case Nil
  then show ?case by (cases bs) simp_all
next
  case (Cons a as)
  then show ?case by simp
qed

lemma insort_key_into_right:
  "\<forall>a\<in>set as. f a < f x \<Longrightarrow> insort_key f x (as @ bs) = as @ insort_key f x bs"
  by (induction as) auto

text \<open>A stable sort keeps the keys up to a bound apart from the keys beyond it.\<close>

lemma sort_key_split:
  "sort_key f xs
   = sort_key f (filter (\<lambda>x. f x \<le> m) xs) @ sort_key f (filter (\<lambda>x. \<not> f x \<le> m) xs)"
proof (induction xs)
  case Nil
  show ?case by simp
next
  case (Cons x xs)
  show ?case
  proof (cases "f x \<le> m")
    case True
    then have "\<forall>b\<in>set (sort_key f (filter (\<lambda>x. \<not> f x \<le> m) xs)). f x \<le> f b"
      by auto
    then show ?thesis using True Cons by (simp add: insort_key_into_left)
  next
    case False
    then have "\<forall>a\<in>set (sort_key f (filter (\<lambda>x. f x \<le> m) xs)). f a < f x"
      by auto
    then show ?thesis using False Cons by (simp add: insort_key_into_right)
  qed
qed

lemma sort_key_snoc_split:
  "sort_key f (xs @ [y])
   = sort_key f (filter (\<lambda>x. f x \<le> f y) xs) @ [y] @ sort_key f (filter (\<lambda>x. \<not> f x \<le> f y) xs)"
proof -
  have "sort_key f (xs @ [y])
        = sort_key f (filter (\<lambda>x. f x \<le> f y) xs @ [y]) @ sort_key f (filter (\<lambda>x. \<not> f x \<le> f y) xs)"
    using sort_key_split [of f "xs @ [y]" "f y"] by simp
  moreover have "sort_key f (filter (\<lambda>x. f x \<le> f y) xs @ [y])
        = sort_key f (filter (\<lambda>x. f x \<le> f y) xs @ []) @ [y]"
    by (rule sort_key_latest_last) simp_all
  ultimately show ?thesis by simp
qed

lemma fold_run_deferred_update:
  "fold (\<lambda>x. run_deferred (snd x)) xs (s\<lparr>timers := r, now := n\<rparr>)
   = (fold (\<lambda>x. run_deferred (snd x)) xs s)\<lparr>timers := r, now := n\<rparr>"
proof (induction xs arbitrary: s)
  case Nil
  show ?case by simp
next
  case (Cons x xs)
  have "run_deferred (snd x) (s\<lparr>timers := r, now := n\<rparr>)
        = (run_deferred (snd x) s)\<lparr>timers := r, now := n\<rparr>"
    by (cases "snd x") simp_all
  then show ?case using Cons by simp
qed

text \<open>Letting time pass in two steps fires the same callbacks in the same order.\<close>

lemma elapse_add: "elapse (a + b) s = elapse b (elapse a s)"
proof -
  let ?T = "timers s" and ?t = "now s"
  let ?R = "\<lambda>x::nat \<times> deferred. run_deferred (snd x)"
  let ?xs = "sort_key fst (filter (\<lambda>x. fst x \<le> ?t + a) ?T)"
  let ?ys = "sort_key fst (filter (\<lambda>x. fst x \<le> ?t + a + b) (filter (\<lambda>x. \<not> fst x \<le> ?t + a) ?T))"
  let ?rest = "filter (\<lambda>x. \<not> fst x \<le> ?t + a + b) ?T"
  have early: "filter (\<lambda>x. fst x \<le> ?t + a) (filter (\<lambda>x. fst x \<le> ?t + a + b) ?T)
               = filter (\<lambda>x. fst x \<le> ?t + a) ?T"
    by (auto simp: filter_filter intro!: filter_cong)
  have late: "filter (\<lambda>x. \<not> fst x \<le> ?t + a) (filter (\<lambda>x. fst x \<le> ?t + a + b) ?T)
              = filter (\<lambda>x. fst x \<le> ?t + a + b) (filter (\<lambda>x. \<not> fst x \<le> ?t + a) ?T)"
    by (auto simp: filter_filter intro!: filter_cong)
  have rest: "filter (\<lambda>x. \<not> fst x \<le> ?t + a + b) (filter (\<lambda>x. \<not> fst x \<le> ?t + a) ?T) = ?rest"
    by (auto simp: filter_filter intro!: filter_cong)
  have due: "sort_key fst (filter (\<lambda>x. fst x \<le> ?t + a + b) ?T) = ?xs @ ?ys"
    using sort_key_split [of fst "filter (\<lambda>x. fst x \<le> ?t + a + b) ?T" "?t + a"]
    by (simp only: early late)
  have "elapse b (elapse a s)
        = fold ?R ?ys ((elapse a s)\<lparr>timers := ?rest, now := ?t + a + b\<rparr>)"
    by (simp only: elapse_def [of b] Let_def timers_elapse now_elapse rest)
  also have "(elapse a s)\<lparr>timers := ?rest, now := ?t + a + b\<rparr>
             = fold ?R ?xs (s\<lparr>timers := ?rest, now := ?t + a + b\<rparr>)"
    by (simp add: elapse_def [of a] Let_def fold_run_deferred_update)
  also have "fold ?R ?ys (fold ?R ?xs (s\<lparr>timers := ?rest, now := ?t + a + b\<rparr>))
             = fold ?R (?xs @ ?ys) (s\<lparr>timers := ?rest, now := ?t + a + b\<rparr>)"
    by simp
  also have "\<dots> = elapse (a + b) s"
    by (simp only: elapse_def [of "a + b"] Let_def add.assoc [symmetric] due)
  finally show ?thesis by simp
qed

text \<open>Where a stable sort puts the last two elements of a list.\<close>

lemma sort_key_two_snoc:
  "sort_key f (xs @ [y1, y2]) =
     (if f y1 \<le> f y2
      then sort_key f (filter (\<lambda>x. f x \<le> f y1) xs) @ [y1] @
           sort_key f (filter (\<lambda>x. \<not> f x \<le> f y1 \<and> f x \<le> f y2) xs) @ [y2] @
           sort_key f (filter (\<lambda>x. \<not> f x \<le> f y2) xs)
      else sort_key f (filter (\<lambda>x. f x \<le> f y2) xs) @ [y2] @
           sort_key f (filter (\<lambda>x. \<not> f x \<le> f y2 \<and> f x \<le> f y1) xs) @ [y1] @
           sort_key f (filter (\<lambda>x. \<not> f x \<le> f y1) xs))"
proof (cases "f y1 \<le> f y2")
  case True
  have "sort_key f ((xs @ [y1]) @ [y2])
        = sort_key f (filter (\<lambda>x. f x \<le> f y2) xs @ [y1]) @ [y2] @
          sort_key f (filter (\<lambda>x. \<not> f x \<le> f y2) xs)"
    using True sort_key_snoc_split [of f "xs @ [y1]" y2] by simp
  moreover have "sort_key f (filter (\<lambda>x. f x \<le> f y2) xs @ [y1])
        = sort_key f (filter (\<lambda>x. f x \<le> f y1) (filter (\<lambda>x. f x \<le> f y2) xs)) @ [y1] @
          sort_key f (filter (\<lambda>x. \<not> f x \<le> f y1) (filter (\<lambda>x. f x \<le> f y2) xs))"
    by (rule sort_key_snoc_split)
  moreover have "filter (\<lambda>x. f x \<le> f y1) (filter (\<lambda>x. f x \<le> f y2) xs)
        = filter (\<lambda>x. f x \<le> f y1) xs"
    using True by (auto simp: filter_filter intro!: filter_cong)
  moreover have "filter (\<lambda>x. \<not> f x \<le> f y1) (filter (\<lambda>x. f x \<le> f y2) xs)
        = filter (\<lambda>x. \<not> f x \<le> f y1 \<and> f x \<le> f y2) xs"
    by (auto simp: filter_filter intro!: filter_cong)
  ultimately show ?thesis using True by simp
next
  case False
  have "sort_key f ((xs @ [y1]) @ [y2])
        = sort_key f (filter (\<lambda>x. f x \<le> f y2) xs) @ [y2] @
          sort_key f (filter (\<lambda>x. \<not> f x \<le> f y2) xs @ [y1])"
    using False sort_key_snoc_split [of f "xs @ [y1]" y2] by simp
  moreover have "sort_key f (filter (\<lambda>x. \<not> f x \<le> f y2) xs @ [y1])
        = sort_key f (filter (\<lambda>x. f x \<le> f y1) (filter (\<lambda>x. \<not> f x \<le> f y2) xs)) @ [y1] @
          sort_key f (filter (\<lambda>x. \<not> f x \<le> f y1) (filter (\<lambda>x. \<not> f x \<le> f y2) xs))"
    by (rule sort_key_snoc_split)
  moreover have "filter (\<lambda>x. f x \<le> f y1) (filter (\<lambda>x. \<not> f x \<le> f y2) xs)
        = filter (\<lambda>x. \<not> f x \<le> f y2 \<and> f x \<le> f y1) xs"
    by (auto simp: filter_filter intro!: filter_cong)
  moreover have "filter (\<lambda>x. \<not> f x \<le> f y1) (filter (\<lambda>x. \<not> f x \<le> f y2) xs)
        = filter (\<lambda>x. \<not> f x \<le> f y1) xs"
    using False by (auto simp: filter_filter intro!: filter_cong)
  ultimately show ?thesis using False by simp
qed

lemma fold_run_deferred_snd:
  "fold (\<lambda>x. run_deferred (snd x)) xs s = fold run_deferred (map snd xs) s"
  by (simp add: fold_map comp_def)

text \<open>
  Two selections in flight: the callbacks that run until the later due time, in the order
  they run, and the state they leave.
\<close>

lemma two_selections_run:
  fixes s :: view_state
  assumes e: "e < delay_of ev1"
    and s2: "s2 = trigger ev2 (elapse e (trigger ev1 s))"
    and d1: "d1 = now s + delay_of ev1"
    and d2: "d2 = now s + e + delay_of ev2"
    and others: "others = filter (\<lambda>x. now s + e < fst x) (timers s)"
  shows "elapse (max d1 d2 - now s2) s2
         = fold run_deferred
             (map snd (sort_key fst (filter (\<lambda>x. fst x \<le> min d1 d2) others)) @
              [callback_of (if d1 \<le> d2 then ev1 else ev2)] @
              map snd (sort_key fst (filter (\<lambda>x. min d1 d2 < fst x \<and> fst x \<le> max d1 d2) others)) @
              [callback_of (if d1 \<le> d2 then ev2 else ev1)])
             (s2\<lparr>timers := filter (\<lambda>x. max d1 d2 < fst x) (timers s), now := max d1 d2\<rparr>)"
proof -
  let ?t1 = "(d1, callback_of ev1)" and ?t2 = "(d2, callback_of ev2)"
  let ?hi = "max d1 d2"
  let ?O = "filter (\<lambda>x. fst x \<le> ?hi) others"
  have rest_eq: "filter (\<lambda>x. \<not> fst x \<le> now s + e) (timers s) = others"
    by (auto simp: others intro!: filter_cong)
  have tm: "timers s2 = others @ [?t1, ?t2]" and nw: "now s2 = now s + e"
    using trigger_pending [OF e, of ev2 s] by (simp_all add: s2 d1 d2 rest_eq)
  have late: "now s2 \<le> d1" "now s2 \<le> d2"
    using e by (simp_all add: nw d1 d2)
  then have hi: "now s2 + (?hi - now s2) = ?hi" by simp
  have pending: "filter (\<lambda>x. \<not> fst x \<le> ?hi) (timers s2) = filter (\<lambda>x. ?hi < fst x) (timers s)"
    using late by (auto simp: tm others nw intro!: filter_cong)
  have due: "filter (\<lambda>x. fst x \<le> ?hi) (timers s2) = ?O @ [?t1, ?t2]"
    by (simp add: tm)
  have f1: "filter (\<lambda>x. fst x \<le> min d1 d2) ?O = filter (\<lambda>x. fst x \<le> min d1 d2) others"
    by (auto simp: filter_filter intro!: filter_cong)
  have f2: "filter (\<lambda>x. \<not> fst x \<le> min d1 d2 \<and> fst x \<le> ?hi) ?O
            = filter (\<lambda>x. min d1 d2 < fst x \<and> fst x \<le> ?hi) others"
    by (auto simp: filter_filter intro!: filter_cong)
  have f3: "filter (\<lambda>x. \<not> fst x \<le> ?hi) ?O = []"
    by simp
  have sorted: "sort_key fst (?O @ [?t1, ?t2])
        = sort_key fst (filter (\<lambda>x. fst x \<le> min d1 d2) others) @
          [(if d1 \<le> d2 then ?t1 else ?t2)] @
          sort_key fst (filter (\<lambda>x. min d1 d2 < fst x \<and> fst x \<le> ?hi) others) @
          [(if d1 \<le> d2 then ?t2 else ?t1)]"
  proof (cases "d1 \<le> d2")
    case True
    then have m: "min d1 d2 = d1" "max d1 d2 = d2" by simp_all
    show ?thesis
      using True f1 f2 f3 unfolding m
      by (simp add: sort_key_two_snoc [of fst _ ?t1 ?t2])
  next
    case False
    then have m: "min d1 d2 = d2" "max d1 d2 = d1" by simp_all
    show ?thesis
      using False f1 f2 f3 unfolding m
      by (simp add: sort_key_two_snoc [of fst _ ?t1 ?t2])
  qed
  have "elapse (?hi - now s2) s2
        = fold (\<lambda>x. run_deferred (snd x)) (sort_key fst (?O @ [?t1, ?t2]))
            (s2\<lparr>timers := filter (\<lambda>x. ?hi < fst x) (timers s), now := ?hi\<rparr>)"
    by (simp only: elapse_def Let_def hi pending due)
  then show ?thesis
    unfolding sorted fold_run_deferred_snd
    by (simp split: if_splits)
qed

text \<open>Once a search callback has run, no later callback brings the highlight back.\<close>

lemma highlight_cleared:
  "SelectSearched p \<in> set ks \<Longrightarrow> highlightedPlace (fold run_deferred ks s) = None"
proof (induction ks arbitrary: s rule: rev_induct)
  case Nil
  then show ?case by simp
next
  case (snoc k ks)
  show ?case
  proof (cases k)
    case (SelectAdded q)
    then have "SelectSearched p \<in> set ks" using snoc.prems by auto
    then show ?thesis using snoc.IH SelectAdded by simp
  next
    case (SelectSearched q)
    then show ?thesis by simp
  qed
qed

text \<open>
  Claim C8. A search-select or an add-place success only appends its timer: every timer
  pending before is still pending after. When a second selection is triggered \<open>e\<close> ms
  after a first one whose delay is longer than \<open>e\<close>, the first timer is still pending.
  Once the later of the two due times is reached, both callbacks have run: the state is
  the one left by running, in this order, the callbacks pending before that are due by
  the earlier due time, the callback due earlier (the first one scheduled when both are
  due together), the callbacks pending before that are due in between, and last the
  callback due later. The same state is reached by letting the time pass in two steps.
  So the selection is the place of the callback that ran last: the second selection when
  it is due no earlier than the first, the first one otherwise; the highlight is cleared
  when either flow was a search-select; only timers that were pending before and are due
  later remain. At the earlier due time the selection is the other place.
\<close>

theorem deferred_selection_last_write_wins:
  assumes "e < delay_of ev1"
  shows "let s1 = trigger ev1 s; s2 = trigger ev2 (elapse e s1);
             d1 = now s + delay_of ev1; d2 = now s + e + delay_of ev2;
             lo = min d1 d2; hi = max d1 d2;
             first = (if d1 \<le> d2 then ev1 else ev2);
             second = (if d1 \<le> d2 then ev2 else ev1);
             others = filter (\<lambda>x. now s + e < fst x) (timers s);
             before = map snd (sort_key fst (filter (\<lambda>x. fst x \<le> lo) others));
             between = map snd (sort_key fst (filter (\<lambda>x. lo < fst x \<and> fst x \<le> hi) others));
             final = elapse (hi - now s2) s2
         in timers s1 = timers s @ [(d1, callback_of ev1)] \<and>
            timers s2 = timers (elapse e s1) @ [(d2, callback_of ev2)] \<and>
            (d1, callback_of ev1) \<in> set (timers (elapse e s1)) \<and>
            final = fold run_deferred
                      (before @ [callback_of first] @ between @ [callback_of second])
                      (s2\<lparr>timers := filter (\<lambda>x. hi < fst x) (timers s), now := hi\<rparr>) \<and>
            final = elapse (hi - lo) (elapse (lo - now s2) s2) \<and>
            selectedPlace final = Some (target_of second) \<and>
            timers final = filter (\<lambda>x. hi < fst x) (timers s) \<and>
            ((\<exists>p. ev1 = SearchSelect p) \<or> (\<exists>p. ev2 = SearchSelect p) \<longrightarrow>
               highlightedPlace final = None) \<and>
            (d1 < d2 \<longrightarrow> selectedPlace (elapse (d1 - now s2) s2) = Some (target_of ev1)) \<and>
            (d2 < d1 \<longrightarrow> selectedPlace (elapse (d2 - now s2) s2) = Some (target_of ev2))"
proof -
  let ?s2 = "trigger ev2 (elapse e (trigger ev1 s))"
  let ?d1 = "now s + delay_of ev1" and ?d2 = "now s + e + delay_of ev2"
  let ?lo = "min ?d1 ?d2" and ?hi = "max ?d1 ?d2"
  let ?others = "filter (\<lambda>x. now s + e < fst x) (timers s)"
  let ?ks = "map snd (sort_key fst (filter (\<lambda>x. fst x \<le> ?lo) ?others)) @
             [callback_of (if ?d1 \<le> ?d2 then ev1 else ev2)] @
             map snd (sort_key fst (filter (\<lambda>x. ?lo < fst x \<and> fst x \<le> ?hi) ?others)) @
             [callback_of (if ?d1 \<le> ?d2 then ev2 else ev1)]"
  let ?final = "elapse (?hi - now ?s2) ?s2"
  have pending: "(?d1, callback_of ev1) \<in> set (timers (elapse e (trigger ev1 s)))"
    using assms by (simp add: timers_elapse timers_trigger now_trigger)
  have run: "?final = fold run_deferred ?ks
               (?s2\<lparr>timers := filter (\<lambda>x. ?hi < fst x) (timers s), now := ?hi\<rparr>)"
    by (rule two_selections_run [OF assms refl refl refl refl])
  have nw: "now ?s2 = now s + e"
    by (simp add: now_trigger now_elapse)
  have "(?lo - now ?s2) + (?hi - ?lo) = ?hi - now ?s2"
    using assms by (simp add: nw)
  then have steps: "?final = elapse (?hi - ?lo) (elapse (?lo - now ?s2) ?s2)"
    using elapse_add [of "?lo - now ?s2" "?hi - ?lo" ?s2] by simp
  have cleared: "highlightedPlace ?final = None"
    if "(\<exists>p. ev1 = SearchSelect p) \<or> (\<exists>p. ev2 = SearchSelect p)"
  proof -
    have both: "callback_of ev1 \<in> set ?ks" "callback_of ev2 \<in> set ?ks"
      by simp_all
    from that have "\<exists>p. SelectSearched p \<in> set ?ks"
    proof
      assume "\<exists>p. ev1 = SearchSelect p"
      then obtain p where "callback_of ev1 = SelectSearched p" by auto
      then show ?thesis using both(1) by metis
    next
      assume "\<exists>p. ev2 = SearchSelect p"
      then obtain p where "callback_of ev2 = SelectSearched p" by auto
      then show ?thesis using both(2) by metis
    qed
    then obtain p where "SelectSearched p \<in> set ?ks" ..
    then show ?thesis
      unfolding run by (rule highlight_cleared)
  qed
  show ?thesis
    unfolding Let_def
    using two_selections [OF assms refl refl refl, where ?ev2.0 = ev2 and s = s]
      pending run steps cleared
    by (simp add: timers_trigger now_trigger now_elapse)
qed

text \<open>
  A search-select of one place and, 100 ms later, an add-place success with another: the
  added place is selected at 900 ms and the searched one overwrites it at 1500 ms, where
  the highlight is cleared. With the add-place success 1000 ms later instead, the
  searched place is selected at 1500 ms and the added one overwrites it at 1800 ms; the
  highlight is cleared then, so the search callback has run.
\<close>

theorem deferred_selection_last_write_wins_witness:
  "(100::nat) < delay_of (SearchSelect place1) \<and>
   selectedPlace (elapse 800 (trigger (PlaceAdded place2)
      (elapse 100 (trigger (SearchSelect place1) loaded_state)))) = Some place2 \<and>
   selectedPlace (elapse 1400 (trigger (PlaceAdded place2)
      (elapse 100 (trigger (SearchSelect place1) loaded_state)))) = Some place1 \<and>
   highlightedPlace (elapse 1400 (trigger (PlaceAdded place2)
      (elapse 100 (trigger (SearchSelect place1) loaded_state)))) = None \<and>
   timers (elapse 1400 (trigger (PlaceAdded place2)
      (elapse 100 (trigger (SearchSelect place1) loaded_state)))) = [] \<and>
   (1000::nat) < delay_of (SearchSelect place1) \<and>
   selectedPlace (elapse 500 (trigger (PlaceAdded place2)
      (elapse 1000 (trigger (SearchSelect place1) loaded_state)))) = Some place1 \<and>
   selectedPlace (elapse 800 (trigger (PlaceAdded place2)
      (elapse 1000 (trigger (SearchSelect place1) loaded_state)))) = Some place2 \<and>
   highlightedPlace (elapse 800 (trigger (PlaceAdded place2)
      (elapse 1000 (trigger (SearchSelect place1) loaded_state)))) = None"
proof -
  have h: "(100::nat) < delay_of (SearchSelect place1)"
    and h': "(1000::nat) < delay_of (SearchSelect place1)" by simp_all
  have "selectedPlace (elapse 800 (trigger (PlaceAdded place2)
      (elapse 100 (trigger (SearchSelect place1) loaded_state)))) = Some place2 \<and>
   selectedPlace (elapse 1400 (trigger (PlaceAdded place2)
      (elapse 100 (trigger (SearchSelect place1) loaded_state)))) = Some place1 \<and>
   highlightedPlace (elapse 1400 (trigger (PlaceAdded place2)
      (elapse 100 (trigger (SearchSelect place1) loaded_state)))) = None \<and>
   timers (elapse 1400 (trigger (PlaceAdded place2)
      (elapse 100 (trigger (SearchSelect place1) loaded_state)))) = []"
    using deferred_selection_last_write_wins [OF h, of loaded_state "PlaceAdded place2"]
    by (simp add: Let_def now_trigger now_elapse loaded_fields del: trigger.simps)
  moreover have "selectedPlace (elapse 500 (trigger (PlaceAdded place2)
      (elapse 1000 (trigger (SearchSelect place1) loaded_state)))) = Some place1 \<and>
   selectedPlace (elapse 800 (trigger (PlaceAdded place2)
      (elapse 1000 (trigger (SearchSelect place1) loaded_state)))) = Some place2 \<and>
   highlightedPlace (elapse 800 (trigger (PlaceAdded place2)
      (elapse 1000 (trigger (SearchSelect place1) loaded_state)))) = None"
    using deferred_selection_last_write_wins [OF h', of loaded_state "PlaceAdded place2"]
    by (simp add: Let_def now_trigger now_elapse loaded_fields del: trigger.simps)
  ultimately show ?thesis using h h' by blast
qed

subsection \<open>Recentering\<close>

lemma extend_bounds_sel:
  "south (extend_bounds c b) = min (south b) (fst c)"
  "west (extend_bounds c b) = min (west b) (snd c)"
  "north (extend_bounds c b) = max (north b) (fst c)"
  "east (extend_bounds c b) = max (east b) (snd c)"
  by (simp_all add: extend_bounds_def)

lemma covers_extend_bounds: "covers b c \<Longrightarrow> covers (extend_bounds a b) c"
  by (simp add: covers_def extend_bounds_sel min_le_iff_disj le_max_iff_disj)

lemma covers_extend_bounds_self: "covers (extend_bounds a b) a"
  by (simp add: covers_def extend_bounds_sel)

lemma fold_extend_covers_old: "covers b c \<Longrightarrow> covers (fold extend_bounds cs b) c"
  by (induction cs arbitrary: b) (simp_all add: covers_extend_bounds)

lemma fold_extend_covers_new: "c \<in> set cs \<Longrightarrow> covers (fold extend_bounds cs b) c"
proof (induction cs arbitrary: b)
  case Nil
  then show ?case by simp
next
  case (Cons a cs)
  show ?case
  proof (cases "c = a")
    case True
    then show ?thesis
      by (simp add: fold_extend_covers_old covers_extend_bounds_self)
  next
    case False
    then show ?thesis using Cons by simp
  qed
qed

lemma fold_extend_south: "south (fold extend_bounds cs b) \<in> insert (south b) (fst ` set cs)"
proof (induction cs arbitrary: b)
  case Nil
  show ?case by simp
next
  case (Cons a cs)
  have "min (south b) (fst a) = south b \<or> min (south b) (fst a) = fst a"
    by (simp add: min_def)
  then show ?case
    using Cons [of "extend_bounds a b"] by (auto simp: extend_bounds_sel)
qed

lemma fold_extend_west: "west (fold extend_bounds cs b) \<in> insert (west b) (snd ` set cs)"
proof (induction cs arbitrary: b)
  case Nil
  show ?case by simp
next
  case (Cons a cs)
  have "min (west b) (snd a) = west b \<or> min (west b) (snd a) = snd a"
    by (simp add: min_def)
  then show ?case
    using Cons [of "extend_bounds a b"] by (auto simp: extend_bounds_sel)
qed

lemma fold_extend_north: "north (fold extend_bounds cs b) \<in> insert (north b) (fst ` set cs)"
proof (induction cs arbitrary: b)
  case Nil
  show ?case by simp
next
  case (Cons a cs)
  have "max (north b) (fst a) = north b \<or> max (north b) (fst a) = fst a"
    by (simp add: max_def)
  then show ?case
    using Cons [of "extend_bounds a b"] by (auto simp: extend_bounds_sel)
qed

lemma fold_extend_east: "east (fold extend_bounds cs b) \<in> insert (east b) (snd ` set cs)"
proof (induction cs arbitrary: b)
  case Nil
  show ?case by simp
next
  case (Cons a cs)
  have "max (east b) (snd a) = east b \<or> max (east b) (snd a) = snd a"
    by (simp add: max_def)
  then show ?case
    using Cons [of "extend_bounds a b"] by (auto simp: extend_bounds_sel)
qed

lemma latLngBounds_box:
  assumes "cs \<noteq> []"
  shows "\<exists>b. latLngBounds cs = Some b \<and> (\<forall>c\<in>set cs. covers b c) \<and>
             south b \<in> fst ` set cs \<and> north b \<in> fst ` set cs \<and>
             west b \<in> snd ` set cs \<and> east b \<in> snd ` set cs"
proof -
  obtain c cs' where cs: "cs = c # cs'" using assms by (cases cs) auto
  let ?init = "\<lparr>south = fst c, west = snd c, north = fst c, east = snd c\<rparr>"
  let ?box = "fold extend_bounds cs' ?init"
  have "covers ?init c" by (simp add: covers_def)
  then have "covers ?box c" by (rule fold_extend_covers_old)
  then have "\<forall>x\<in>set cs. covers ?box x"
    by (simp add: cs fold_extend_covers_new)
  moreover have "south ?box \<in> fst ` set cs" "north ?box \<in> fst ` set cs"
      "west ?box \<in> snd ` set cs" "east ?box \<in> snd ` set cs"
    using fold_extend_south [of cs' ?init] fold_extend_north [of cs' ?init]
      fold_extend_west [of cs' ?init] fold_extend_east [of cs' ?init]
    by (simp_all add: cs)
  moreover have "latLngBounds cs = Some ?box" by (simp add: cs)
  ultimately show ?thesis by blast
qed

lemma filteredPlaces_cong:
  "places s' = places s \<Longrightarrow> filterCategory s' = filterCategory s \<Longrightarrow>
   showFavoritesOnly s' = showFavoritesOnly s \<Longrightarrow> filteredPlaces s' = filteredPlaces s"
  by (simp add: filteredPlaces_def)

lemma handleRecenter_empty: "filteredPlaces s = [] \<Longrightarrow> handleRecenter s = s"
  by (simp add: handleRecenter_def)

lemma handleRecenter_no_map: "\<not> mapRef_current s \<Longrightarrow> handleRecenter s = s"
  by (simp add: handleRecenter_def Let_def)

lemma handleRecenter_fit:
  "filteredPlaces s \<noteq> [] \<Longrightarrow> mapRef_current s \<Longrightarrow>
   handleRecenter s = s\<lparr>widget_calls := widget_calls s @
     [FitBounds (latLngBounds (map (\<lambda>p. (latitude p, longitude p)) (filteredPlaces s))) (50, 50)]\<rparr>"
  by (simp add: handleRecenter_def Let_def)

text \<open>
  Claim C7, as the code has it. With no visible place the recenter is a no-op: the state,
  and with it the log of widget calls, is unchanged. With visible places and
  \<open>mapRef.current\<close> still \<open>null\<close>, the optional call \<open>mapRef.current?.fitBounds\<close> does
  nothing either. With visible places and a map, exactly one call is made:
  \<open>fitBounds\<close> with padding \<open>[50, 50]\<close> on a box that covers the coordinates of every
  visible place and whose four sides each pass through one of them.
\<close>

theorem handleRecenter_effects:
  "(filteredPlaces s = [] \<longrightarrow> handleRecenter s = s) \<and>
   (filteredPlaces s \<noteq> [] \<and> \<not> mapRef_current s \<longrightarrow> handleRecenter s = s) \<and>
   (filteredPlaces s \<noteq> [] \<and> mapRef_current s \<longrightarrow>
      (\<exists>b. handleRecenter s = s\<lparr>widget_calls := widget_calls s @ [FitBounds (Some b) (50, 50)]\<rparr> \<and>
           (\<forall>p\<in>set (filteredPlaces s). covers b (latitude p, longitude p)) \<and>
           south b \<in> latitude ` set (filteredPlaces s) \<and>
           north b \<in> latitude ` set (filteredPlaces s) \<and>
           west b \<in> longitude ` set (filteredPlaces s) \<and>
           east b \<in> longitude ` set (filteredPlaces s)))"
proof (intro conjI impI)
  show "handleRecenter s = s" if "filteredPlaces s = []"
    using that by (rule handleRecenter_empty)
  show "handleRecenter s = s" if "filteredPlaces s \<noteq> [] \<and> \<not> mapRef_current s"
    using that by (simp add: handleRecenter_no_map)
  show "\<exists>b. handleRecenter s = s\<lparr>widget_calls := widget_calls s @ [FitBounds (Some b) (50, 50)]\<rparr> \<and>
           (\<forall>p\<in>set (filteredPlaces s). covers b (latitude p, longitude p)) \<and>
           south b \<in> latitude ` set (filteredPlaces s) \<and>
           north b \<in> latitude ` set (filteredPlaces s) \<and>
           west b \<in> longitude ` set (filteredPlaces s) \<and>
           east b \<in> longitude ` set (filteredPlaces s)"
    if h: "filteredPlaces s \<noteq> [] \<and> mapRef_current s"
  proof -
    let ?cs = "map (\<lambda>p. (latitude p, longitude p)) (filteredPlaces s)"
    have "?cs \<noteq> []" using h by simp
    from latLngBounds_box [OF this] obtain b where
      b: "latLngBounds ?cs = Some b" and cov: "\<forall>c\<in>set ?cs. covers b c"
      and att: "south b \<in> fst ` set ?cs" "north b \<in> fst ` set ?cs"
        "west b \<in> snd ` set ?cs" "east b \<in> snd ` set ?cs"
      by blast
    have "handleRecenter s = s\<lparr>widget_calls := widget_calls s @ [FitBounds (Some b) (50, 50)]\<rparr>"
      using h by (simp add: handleRecenter_fit b)
    moreover have "\<forall>p\<in>set (filteredPlaces s). covers b (latitude p, longitude p)"
      using cov by simp
    moreover have "south b \<in> latitude ` set (filteredPlaces s)"
      "north b \<in> latitude ` set (filteredPlaces s)"
      "west b \<in> longitude ` set (filteredPlaces s)"
      "east b \<in> longitude ` set (filteredPlaces s)"
      using att by (simp_all add: image_image)
    ultimately show ?thesis by blast
  qed
qed

lemma mounted_fields:
  "mapRef_current mounted_state = True" "widget_calls mounted_state = []"
  "filteredPlaces mounted_state = [place2, place1]"
proof -
  show "mapRef_current mounted_state = True" by (simp add: mounted_state_def)
  show "widget_calls mounted_state = []"
    by (simp add: mounted_state_def loaded_state_def refetch_settled_def initial_state_def)
  have "filteredPlaces mounted_state = filteredPlaces loaded_state"
    by (rule filteredPlaces_cong) (simp_all add: mounted_state_def)
  then show "filteredPlaces mounted_state = [place2, place1]"
    by (simp add: filteredPlaces_loaded)
qed

text \<open>
  Nothing is called before the list has loaded, nothing while the map is not mounted, and
  one box covering both places is fitted once it is.
\<close>

theorem handleRecenter_effects_witness:
  "handleRecenter (initial_state [place1, place2]) = initial_state [place1, place2] \<and>
   handleRecenter loaded_state = loaded_state \<and>
   (\<exists>b. widget_calls (handleRecenter mounted_state) = [FitBounds (Some b) (50, 50)] \<and>
        covers b (latitude place1, longitude place1) \<and>
        covers b (latitude place2, longitude place2))"
proof -
  have "handleRecenter (initial_state [place1, place2]) = initial_state [place1, place2]"
    using handleRecenter_effects [of "initial_state [place1, place2]"]
    by (simp add: filteredPlaces_initial)
  moreover have "handleRecenter loaded_state = loaded_state"
    using handleRecenter_effects [of loaded_state]
    by (simp add: filteredPlaces_loaded loaded_fields)
  moreover have "\<exists>b. widget_calls (handleRecenter mounted_state) = [FitBounds (Some b) (50, 50)] \<and>
        covers b (latitude place1, longitude place1) \<and>
        covers b (latitude place2, longitude place2)"
  proof -
    from handleRecenter_effects [of mounted_state] obtain b where
      "handleRecenter mounted_state
         = mounted_state\<lparr>widget_calls := widget_calls mounted_state @ [FitBounds (Some b) (50, 50)]\<rparr>"
      and "\<forall>p\<in>set (filteredPlaces mounted_state). covers b (latitude p, longitude p)"
      by (auto simp: mounted_fields)
    then show ?thesis by (intro exI [of _ b]) (simp add: mounted_fields)
  qed
  ultimately show ?thesis by blast
qed

text \<open>
  Claim C7 as stated fails while \<open>mapRef.current\<close> is \<open>null\<close>: two places are visible
  and the recenter makes no widget call.
\<close>

theorem handleRecenter_without_map:
  "filteredPlaces loaded_state = [place2, place1] \<and>
   widget_calls (handleRecenter loaded_state) = []"
  by (simp add: handleRecenter_no_map filteredPlaces_loaded loaded_fields)

subsection \<open>Toggling a favourite\<close>

lemma map_place_id_update:
  "map place_id (map (\<lambda>q. if place_id q = i then q\<lparr>is_favorite := fav\<rparr> else q) store)
   = map place_id store"
  by (induction store) simp_all

lemma Place_update_ids:
  assumes "Place_update i fav store = Some store'"
  shows "place_id ` set store' = place_id ` set store"
proof -
  have "store' = map (\<lambda>q. if place_id q = i then q\<lparr>is_favorite := fav\<rparr> else q) store"
    using assms by (simp add: Place_update_def split: if_splits)
  then have "map place_id store' = map place_id store"
    by (simp only: map_place_id_update)
  then have "set (map place_id store') = set (map place_id store)"
    by simp
  then show ?thesis by (simp only: set_map)
qed

lemma Place_update_succeeds:
  "i \<in> place_id ` set store \<Longrightarrow> \<exists>store'. Place_update i fav store = Some store'"
  by (simp add: Place_update_def)

lemma Place_update_written:
  "Place_update i fav store = Some store' \<Longrightarrow> q \<in> set store' \<Longrightarrow> place_id q = i \<Longrightarrow>
   is_favorite q = fav"
  by (auto simp: Place_update_def split: if_splits)

lemma set_Place_list: "set (Place_list store) = set store"
  by (simp add: Place_list_def)

lemma mutation_settled_ids:
  "place_id ` set (remote (mutation_settled s)) = place_id ` set (remote s)"
  by (auto simp: mutation_settled_def dest: Place_update_ids split: list.splits option.splits)

lemma mutation_settled_pending:
  "pending_updates (mutation_settled s) = tl (pending_updates s)"
  by (simp add: mutation_settled_def split: list.splits option.splits)

lemma mutation_settled_frame:
  "same_view s (mutation_settled s)"
  "places (mutation_settled s) = places s"
  "timers (mutation_settled s) = timers s"
  by (simp_all add: same_view_def mutation_settled_def split: list.splits option.splits)

lemma same_view_refl: "same_view s s"
  by (simp add: same_view_def)

lemma same_view_trans: "same_view s s' \<Longrightarrow> same_view s' s'' \<Longrightarrow> same_view s s''"
  by (simp add: same_view_def)

lemma funpow_mutation_settled_frame:
  "same_view s ((mutation_settled ^^ n) s) \<and> places ((mutation_settled ^^ n) s) = places s"
proof (induction n)
  case 0
  show ?case by (simp add: same_view_refl)
next
  case (Suc n)
  then show ?case
    using mutation_settled_frame(1) [of "(mutation_settled ^^ n) s"]
    by (auto simp: mutation_settled_frame(2) intro: same_view_trans)
qed

lemma mutations_settled_frame:
  "same_view s (mutations_settled s)" "places (mutations_settled s) = places s"
  by (simp_all add: mutations_settled_def funpow_mutation_settled_frame)

text \<open>The mutation issued last is the last to settle, so its value is the one the store keeps.\<close>

lemma funpow_mutation_settled_last:
  assumes "pending_updates s = rs @ [r]" and "req_id r \<in> place_id ` set (remote s)"
  shows "places_invalidated ((mutation_settled ^^ Suc (length rs)) s) \<and>
         req_id r \<in> place_id ` set (remote ((mutation_settled ^^ Suc (length rs)) s)) \<and>
         (\<forall>q\<in>set (remote ((mutation_settled ^^ Suc (length rs)) s)).
            place_id q = req_id r \<longrightarrow> is_favorite q = req_is_favorite r)"
  using assms
proof (induction rs arbitrary: s)
  case Nil
  from Place_update_succeeds [OF Nil(2)] obtain store' where
    upd: "Place_update (req_id r) (req_is_favorite r) (remote s) = Some store'"
    by blast
  have "mutation_settled s = s\<lparr>pending_updates := [], remote := store', places_invalidated := True\<rparr>"
    using Nil(1) upd by (simp add: mutation_settled_def)
  then show ?case
    using Place_update_ids [OF upd] Place_update_written [OF upd] Nil(2) by auto
next
  case (Cons r0 rs)
  have "pending_updates (mutation_settled s) = rs @ [r]"
    using Cons.prems(1) by (simp add: mutation_settled_pending)
  moreover have "req_id r \<in> place_id ` set (remote (mutation_settled s))"
    using Cons.prems(2) by (simp add: mutation_settled_ids)
  ultimately show ?case
    using Cons.IH [of "mutation_settled s"] by (simp add: funpow_swap1)
qed

lemma handleToggleFavorite_frame:
  "pending_updates (handleToggleFavorite p s) = pending_updates s @
     [\<lparr>req_id = place_id p, req_is_favorite = (\<not> is_favorite p)\<rparr>]"
  "remote (handleToggleFavorite p s) = remote s"
  "places (handleToggleFavorite p s) = places s"
  "same_view s (handleToggleFavorite p s)"
  by (simp_all add: handleToggleFavorite_def same_view_def)

lemma refetch_settled_frame: "same_view s (refetch_settled s)"
  by (simp add: refetch_settled_def same_view_def)

lemma toggle_settled:
  assumes "place_id p \<in> place_id ` set (remote s)"
  shows "places_invalidated (mutations_settled (handleToggleFavorite p s))"
    and "place_id p \<in> place_id ` set (remote (mutations_settled (handleToggleFavorite p s)))"
    and "\<forall>q\<in>set (remote (mutations_settled (handleToggleFavorite p s))).
           place_id q = place_id p \<longrightarrow> is_favorite q = (\<not> is_favorite p)"
proof -
  let ?r = "\<lparr>req_id = place_id p, req_is_favorite = (\<not> is_favorite p)\<rparr>"
  let ?s1 = "handleToggleFavorite p s"
  have "mutations_settled ?s1 = (mutation_settled ^^ Suc (length (pending_updates s))) ?s1"
    by (simp add: mutations_settled_def handleToggleFavorite_frame)
  then show "places_invalidated (mutations_settled ?s1)"
    and "place_id p \<in> place_id ` set (remote (mutations_settled ?s1))"
    and "\<forall>q\<in>set (remote (mutations_settled ?s1)).
           place_id q = place_id p \<longrightarrow> is_favorite q = (\<not> is_favorite p)"
    using funpow_mutation_settled_last [of ?s1 "pending_updates s" ?r] assms
    by (simp_all add: handleToggleFavorite_frame)
qed

lemma places_refetch_settled: "set (places (refetch_settled s)) = set (remote s)"
  by (simp add: refetch_settled_def set_Place_list)



text \<open>
  Claim C10. The filter, the viewport target, the highlight and the selection are the
  same after the toggle is issued, after the mutations have settled and after the
  refetch has delivered, whatever the store answers. When the toggled place is the
  selected one, the selection is still that very snapshot, with the flag it had.
\<close>

theorem toggle_favorite_keeps_view:
  "let s1 = handleToggleFavorite p s;
       s2 = mutations_settled s1;
       s3 = refetch_settled s2
   in same_view s s1 \<and> same_view s s2 \<and> same_view s s3 \<and>
      (selectedPlace s = Some p \<longrightarrow>
         selectedPlace s3 = Some p \<and> is_favorite (the (selectedPlace s3)) = is_favorite p)"
proof -
  let ?s1 = "handleToggleFavorite p s"
  let ?s2 = "mutations_settled ?s1"
  let ?s3 = "refetch_settled ?s2"
  have 1: "same_view s ?s1" by (rule handleToggleFavorite_frame)
  have 2: "same_view s ?s2"
    using 1 mutations_settled_frame(1) [of ?s1] by (rule same_view_trans)
  have 3: "same_view s ?s3"
    using 2 refetch_settled_frame [of ?s2] by (rule same_view_trans)
  from 3 have "selectedPlace ?s3 = selectedPlace s" by (simp add: same_view_def)
  then show ?thesis
    unfolding Let_def using 1 2 3 by simp
qed

lemma selected_loaded: "selectedPlace (marker_click place1 loaded_state) = Some place1"
  by (simp add: marker_click_def)

text \<open>
  The selected bar is toggled: the selection is still the snapshot taken at the click.
\<close>

theorem toggle_favorite_keeps_view_witness:
  "selectedPlace (refetch_settled (mutations_settled
      (handleToggleFavorite place1 (marker_click place1 loaded_state)))) = Some place1 \<and>
   filterCategory (refetch_settled (mutations_settled
      (handleToggleFavorite place1 (marker_click place1 loaded_state)))) = ''all''"
  using toggle_favorite_keeps_view [of place1 "marker_click place1 loaded_state"]
  by (simp add: Let_def selected_loaded same_view_def marker_click_def loaded_fields)

text \<open>
  With the store as modelled, the selected snapshot is no longer among the refetched
  places once its toggle has settled: the card shows the old flag.
\<close>

lemma selection_stale_after_toggle:
  assumes "selectedPlace s = Some p" and "place_id p \<in> place_id ` set (remote s)"
  shows "selectedPlace (refetch_settled (mutations_settled (handleToggleFavorite p s))) = Some p"
    and "p \<notin> set (places (refetch_settled (mutations_settled (handleToggleFavorite p s))))"
proof -
  let ?s2 = "mutations_settled (handleToggleFavorite p s)"
  have "same_view s (refetch_settled ?s2)"
    using handleToggleFavorite_frame(4) [of s p] mutations_settled_frame(1)
      refetch_settled_frame by (blast intro: same_view_trans)
  then show "selectedPlace (refetch_settled ?s2) = Some p"
    using assms(1) by (simp add: same_view_def)
  show "p \<notin> set (places (refetch_settled ?s2))"
    using toggle_settled(3) [OF assms(2)] unfolding places_refetch_settled by auto
qed

end
